theory Spec2Isabelle
  imports Complex_Main "HOL-Library.Product_Lexorder"
begin

section \<open>Numbers of the dashboard: float64 cells\<close>

text \<open>
  Every numeric cell of the dashboard is a pandas float64. A cell is modelled as an exact
  real or one of the three special values of the format. Arithmetic on two finite cells
  is the arithmetic of the reals (rounding, overflow and the sign of zero are left out);
  the special values follow the rules of the format, so that a division by zero gives
  an infinity or NaN and raises nothing, as numpy does on float64 operands. The
  rounding of a result to the nearest float64 is a step of its own, \<open>round64\<close> below;
  the operations \<open>fmul64\<close> and \<open>fdiv64\<close> apply it after the exact operation, and they
  are the ones used where a statement depends on the last bit of a result.
\<close>

datatype fval = Fin real | PInf | NInf | NaN

definition is_fin :: "fval \<Rightarrow> bool" where
  "is_fin v = (case v of Fin _ \<Rightarrow> True | _ \<Rightarrow> False)"

definition signed_inf :: "bool \<Rightarrow> fval" where
  "signed_inf pos = (if pos then PInf else NInf)"

definition inf_times :: "bool \<Rightarrow> real \<Rightarrow> fval" where
  \<comment> \<open>an infinity of the given sign times a finite number\<close>
  "inf_times pos x = (if x = 0 then NaN else signed_inf (pos = (0 < x)))"

fun fsub :: "fval \<Rightarrow> fval \<Rightarrow> fval" where
  "fsub (Fin x) (Fin y) = Fin (x - y)"
| "fsub NaN _ = NaN"
| "fsub _ NaN = NaN"
| "fsub PInf PInf = NaN"
| "fsub NInf NInf = NaN"
| "fsub PInf _ = PInf"
| "fsub NInf _ = NInf"
| "fsub (Fin x) PInf = NInf"
| "fsub (Fin x) NInf = PInf"

fun fmul :: "fval \<Rightarrow> fval \<Rightarrow> fval" where
  "fmul (Fin x) (Fin y) = Fin (x * y)"
| "fmul NaN _ = NaN"
| "fmul _ NaN = NaN"
| "fmul PInf PInf = PInf"
| "fmul NInf NInf = PInf"
| "fmul PInf NInf = NInf"
| "fmul NInf PInf = NInf"
| "fmul PInf (Fin y) = inf_times True y"
| "fmul NInf (Fin y) = inf_times False y"
| "fmul (Fin x) PInf = inf_times True x"
| "fmul (Fin x) NInf = inf_times False x"

fun fdiv :: "fval \<Rightarrow> fval \<Rightarrow> fval" where
  "fdiv (Fin x) (Fin y) =
     (if y \<noteq> 0 then Fin (x / y) else if x = 0 then NaN else signed_inf (0 < x))"
| "fdiv NaN _ = NaN"
| "fdiv _ NaN = NaN"
| "fdiv (Fin x) PInf = Fin 0"
| "fdiv (Fin x) NInf = Fin 0"
| "fdiv PInf (Fin y) = signed_inf (0 \<le> y)"
| "fdiv NInf (Fin y) = signed_inf (y < 0)"
| "fdiv PInf _ = NaN"
| "fdiv NInf _ = NaN"

section \<open>Errors\<close>

text \<open>
  \<open>IndexError\<close> is what \<open>Series.iloc\<close> raises on a position out of range and
  \<open>KeyError\<close> what reading a missing column raises. \<open>EmptyRangeError\<close> and
  \<open>DivisionByZeroError\<close> are the names of the specification's error taxonomy; the
  script defines and raises neither.
\<close>

datatype py_error = IndexError | KeyError | EmptyRangeError | DivisionByZeroError

section \<open>The table\<close>

text \<open>
  A calendar date is (year, month, day), ordered lexicographically as \<open>datetime.date\<close>
  is. The \<open>Date\<close> column holds timestamps: a date and the time of day; \<open>.dt.date\<close>
  drops the time. A row carries the four input columns; the three numeric inputs are
  finite numbers. A table is the list of its rows in positional order, which is all
  that \<open>iloc\<close>, boolean indexing and element-wise arithmetic between columns of one
  frame depend on.
\<close>

type_synonym date = "nat \<times> nat \<times> nat"
type_synonym timestamp = "date \<times> nat"

definition dt_date :: "timestamp \<Rightarrow> date" where
  "dt_date t = fst t"

record row =
  Date :: timestamp
  US_CPI :: real
  India_CPI :: real
  Exchange_Rate_INR_USD :: real

definition column :: "(row \<Rightarrow> real) \<Rightarrow> row list \<Rightarrow> fval list" where
  \<comment> \<open>\<open>df['name']\<close> for a numeric input column\<close>
  "column f df = map (\<lambda>r. Fin (f r)) df"

definition iloc :: "'a list \<Rightarrow> int \<Rightarrow> py_error + 'a" where
  \<comment> \<open>\<open>series.iloc[i]\<close>: a negative position counts from the end\<close>
  "iloc xs i =
     (let n = int (length xs); k = (if i < 0 then i + n else i)
      in if k < 0 \<or> n \<le> k then Inl IndexError else Inr (xs ! nat k))"

subsection \<open>Date range filter (lines 81-82)\<close>

definition date_mask :: "row list \<Rightarrow> date \<Rightarrow> date \<Rightarrow> bool list" where
  "date_mask df start_date end_date =
     map (\<lambda>r. dt_date (Date r) \<ge> start_date \<and> dt_date (Date r) \<le> end_date) df"

definition bool_index :: "'a list \<Rightarrow> bool list \<Rightarrow> 'a list" where
  \<comment> \<open>\<open>df[mask]\<close>: the rows whose mask entry is true, in order\<close>
  "bool_index df msk = map fst (filter snd (zip df msk))"

definition filter_range :: "row list \<Rightarrow> date \<Rightarrow> date \<Rightarrow> row list" where
  "filter_range df start_date end_date = bool_index df (date_mask df start_date end_date)"

subsection \<open>Summary metrics (lines 85-92 and 119)\<close>

definition calculate_metrics :: "row list \<Rightarrow> py_error + (fval \<times> fval \<times> fval)" where
  "calculate_metrics df =
    (case iloc (column US_CPI df) (- 1) of Inl e \<Rightarrow> Inl e | Inr us_last \<Rightarrow>
    (case iloc (column US_CPI df) 0 of Inl e \<Rightarrow> Inl e | Inr us_first \<Rightarrow>
    (let us_inflation = fmul (fsub (fdiv us_last us_first) (Fin 1)) (Fin 100) in
    (case iloc (column India_CPI df) (- 1) of Inl e \<Rightarrow> Inl e | Inr in_last \<Rightarrow>
    (case iloc (column India_CPI df) 0 of Inl e \<Rightarrow> Inl e | Inr in_first \<Rightarrow>
    (let india_inflation = fmul (fsub (fdiv in_last in_first) (Fin 1)) (Fin 100) in
    (case iloc (column Exchange_Rate_INR_USD df) (- 1) of Inl e \<Rightarrow> Inl e | Inr fx_last \<Rightarrow>
    (case iloc (column Exchange_Rate_INR_USD df) 0 of Inl e \<Rightarrow> Inl e | Inr fx_first \<Rightarrow>
    (let exchange_change = fmul (fsub (fdiv fx_last fx_first) (Fin 1)) (Fin 100) in
     Inr (us_inflation, india_inflation, exchange_change))))))))))"

record metrics =
  us_inf :: fval
  india_inf :: fval
  fx_change :: fval
  inflation_diff :: fval

definition key_metrics :: "row list \<Rightarrow> py_error + metrics" where
  \<comment> \<open>line 92 and the differential of line 119\<close>
  "key_metrics df_filtered =
    (case calculate_metrics df_filtered of
       Inl e \<Rightarrow> Inl e
     | Inr (u, i, f) \<Rightarrow>
         Inr \<lparr>us_inf = u, india_inf = i, fx_change = f, inflation_diff = fsub i u\<rparr>)"

subsection \<open>Year-over-year change (lines 172-173)\<close>

text \<open>
  \<open>Series.pct_change(n)\<close>, called with its defaults as the script does, first fills
  every NaN with the last value before it that is not NaN (\<open>fill_method='pad'\<close>, the
  default through pandas 2.x; a NaN with no such value before it stays), then divides
  each value of the filled series by the value \<open>n\<close> positions earlier and subtracts
  one. \<open>shift\<close> moves the values down by \<open>n\<close> positions and fills the top with NaN.
\<close>

fun ffill_from :: "fval \<Rightarrow> fval list \<Rightarrow> fval list" where
  "ffill_from prev [] = []"
| "ffill_from prev (x # xs) =
     (let v = (if x = NaN then prev else x) in v # ffill_from v xs)"

definition ffill :: "fval list \<Rightarrow> fval list" where
  "ffill xs = ffill_from NaN xs"

definition shift :: "nat \<Rightarrow> fval list \<Rightarrow> fval list" where
  "shift n xs = replicate (min n (length xs)) NaN @ take (length xs - n) xs"

definition pct_change :: "nat \<Rightarrow> fval list \<Rightarrow> fval list" where
  "pct_change n xs =
     (let data = ffill xs
      in map (\<lambda>(x, y). fsub (fdiv x y) (Fin 1)) (zip data (shift n data)))"

definition scale :: "fval list \<Rightarrow> fval \<Rightarrow> fval list" where
  \<comment> \<open>\<open>series * k\<close>\<close>
  "scale xs k = map (\<lambda>x. fmul x k) xs"

definition inflation_yoy :: "fval list \<Rightarrow> fval list" where
  "inflation_yoy xs = scale (pct_change 12 xs) (Fin 100)"

subsection \<open>Normalisation (lines 241-243)\<close>

definition normalized :: "fval list \<Rightarrow> py_error + fval list" where
  \<comment> \<open>\<open>(series / series.iloc[0]) * 100\<close>\<close>
  "normalized xs =
    (case iloc xs 0 of
       Inl e \<Rightarrow> Inl e
     | Inr base \<Rightarrow> Inr (scale (map (\<lambda>x. fdiv x base) xs) (Fin 100)))"

subsection \<open>Purchasing power parity (lines 282-283)\<close>

definition ppp_implied :: "row list \<Rightarrow> py_error + fval list" where
  "ppp_implied df =
    (case iloc (column Exchange_Rate_INR_USD df) 0 of Inl e \<Rightarrow> Inl e | Inr fx0 \<Rightarrow>
    (let ratio = map (\<lambda>(b, a). fdiv b a) (zip (column India_CPI df) (column US_CPI df)) in
    (case iloc (column India_CPI df) 0 of Inl e \<Rightarrow> Inl e | Inr b0 \<Rightarrow>
    (case iloc (column US_CPI df) 0 of Inl e \<Rightarrow> Inl e | Inr a0 \<Rightarrow>
     Inr (map (\<lambda>r. fdiv (fmul fx0 r) (fdiv b0 a0)) ratio)))))"

definition ppp_deviation :: "fval list \<Rightarrow> fval list \<Rightarrow> fval list" where
  \<comment> \<open>\<open>((fx - implied) / implied) * 100\<close>\<close>
  "ppp_deviation fx implied =
     scale (map (\<lambda>(x, p). fdiv (fsub x p) p) (zip fx implied)) (Fin 100)"

subsection \<open>Rounding to float64\<close>

text \<open>
  A float64 has 53 significant bits. The result of an operation is the exact result
  rounded to the nearest such number, a tie going to the neighbour with an even last
  bit. \<open>rhe\<close> rounds a real to the nearest integer in that way. \<open>binade x\<close> is the
  exponent \<open>e\<close> with \<open>2^e \<le> |x| < 2^(e+1)\<close>, searched downwards from 1100 over every
  exponent a float64 can have. \<open>round64\<close> rounds to a multiple of \<open>2^(e-52)\<close>, where
  the exponent is not taken below -1022 (the subnormal numbers share one spacing), and
  gives an infinity when the rounded value reaches \<open>2^1024\<close>. The sign of a zero result
  is not kept.
\<close>

definition rhe :: "real \<Rightarrow> int" where
  "rhe y = (let f = \<lfloor>y\<rfloor>; d = y - of_int f
            in if d < 1 / 2 then f else if 1 / 2 < d then f + 1
               else if even f then f else f + 1)"

fun binade_from :: "nat \<Rightarrow> int \<Rightarrow> real \<Rightarrow> int" where
  "binade_from 0 e x = e"
| "binade_from (Suc k) e x = (if 2 powi e \<le> x then e else binade_from k (e - 1) x)"

definition binade :: "real \<Rightarrow> int" where
  "binade x = binade_from 2200 1100 \<bar>x\<bar>"

definition round64 :: "real \<Rightarrow> fval" where
  "round64 x =
     (if x = 0 then Fin 0
      else let e = max (binade x) (- 1022);
               u = 2 powi (e - 52);
               y = of_int (rhe (x / u)) * u
           in if 2 powi 1024 \<le> \<bar>y\<bar> then signed_inf (0 < x) else Fin y)"

definition round_cell :: "fval \<Rightarrow> fval" where
  "round_cell v = (case v of Fin x \<Rightarrow> round64 x | _ \<Rightarrow> v)"

definition fmul64 :: "fval \<Rightarrow> fval \<Rightarrow> fval" where
  "fmul64 x y = round_cell (fmul x y)"

definition fdiv64 :: "fval \<Rightarrow> fval \<Rightarrow> fval" where
  "fdiv64 x y = round_cell (fdiv x y)"

text \<open>Line 282 again, every multiplication and division rounded as the machine does.\<close>

definition ppp_implied64 :: "row list \<Rightarrow> py_error + fval list" where
  "ppp_implied64 df =
    (case iloc (column Exchange_Rate_INR_USD df) 0 of Inl e \<Rightarrow> Inl e | Inr fx0 \<Rightarrow>
    (let ratio = map (\<lambda>(b, a). fdiv64 b a) (zip (column India_CPI df) (column US_CPI df)) in
    (case iloc (column India_CPI df) 0 of Inl e \<Rightarrow> Inl e | Inr b0 \<Rightarrow>
    (case iloc (column US_CPI df) 0 of Inl e \<Rightarrow> Inl e | Inr a0 \<Rightarrow>
     Inr (map (\<lambda>r. fdiv64 (fmul64 fx0 r) (fdiv64 b0 a0)) ratio)))))"

text \<open>A number whose magnitude lies between two powers of two.\<close>

definition mag :: "int \<Rightarrow> int \<Rightarrow> real \<Rightarrow> bool" where
  "mag m n x \<longleftrightarrow> 2 powi m \<le> \<bar>x\<bar> \<and> \<bar>x\<bar> \<le> 2 powi n"

subsection \<open>Correlation matrix (line 316)\<close>







section \<open>One run of the script\<close>

text \<open>
  The script holds two frames: \<open>df\<close>, the raw table, and \<open>df_filtered\<close>, the copy that
  \<open>df[mask].copy()\<close> creates and that every later column assignment writes to. Frames
  live in a store addressed by position; a variable holds an address. A frame is its
  rows of input columns and the derived columns assigned so far, by name, in the order
  of their first assignment.
\<close>

record frame =
  rows :: "row list"
  derived :: "(string \<times> fval list) list"

type_synonym store = "frame list"

definition new_frame :: "store \<Rightarrow> row list \<Rightarrow> store \<times> nat" where
  \<comment> \<open>a fresh object holding the given rows; returns its address\<close>
  "new_frame h rs = (h @ [\<lparr>rows = rs, derived = []\<rparr>], length h)"

definition setitem :: "frame \<Rightarrow> string \<Rightarrow> fval list \<Rightarrow> frame" where
  \<comment> \<open>\<open>frame[name] = values\<close>: replaces the column of that name or appends a new one\<close>
  "setitem f name vals =
     f\<lparr>derived :=
         (if name \<in> set (map fst (derived f))
          then map (\<lambda>(k, v). if k = name then (k, vals) else (k, v)) (derived f)
          else derived f @ [(name, vals)])\<rparr>"

definition getitem :: "frame \<Rightarrow> string \<Rightarrow> py_error + fval list" where
  \<comment> \<open>\<open>frame[name]\<close> for a derived column\<close>
  "getitem f name =
     (case map_of (derived f) name of None \<Rightarrow> Inl KeyError | Some v \<Rightarrow> Inr v)"

definition store_col :: "store \<Rightarrow> nat \<Rightarrow> string \<Rightarrow> fval list \<Rightarrow> store" where
  "store_col h a name vals = h[a := setitem (h ! a) name vals]"

text \<open>
  The run, in the order of the script: filter and copy (81-82), the summary metrics
  (92, 119), the year-over-year columns (172-173), the normalised columns (241-243) and
  the two purchasing-power columns (282-283). An exception ends the run where it is
  raised. The result is the final store, the address of \<open>df_filtered\<close> and either the
  exception or the metrics. (The mean, minimum and maximum of lines 231-235 and the
  correlation matrix are displayed only; they write to no frame.)
\<close>

definition run :: "store \<Rightarrow> nat \<Rightarrow> date \<Rightarrow> date \<Rightarrow> store \<times> nat \<times> (py_error + metrics)" where
  "run h df start_date end_date =
    (let (h0, dff) = new_frame h (filter_range (rows (h ! df)) start_date end_date) in
     case key_metrics (rows (h0 ! dff)) of
       Inl e \<Rightarrow> (h0, dff, Inl e)
     | Inr m \<Rightarrow>
     (let h1 = store_col h0 dff ''US_Inflation_YoY''
                 (inflation_yoy (column US_CPI (rows (h0 ! dff))));
          h2 = store_col h1 dff ''India_Inflation_YoY''
                 (inflation_yoy (column India_CPI (rows (h1 ! dff)))) in
      case normalized (column US_CPI (rows (h2 ! dff))) of
        Inl e \<Rightarrow> (h2, dff, Inl e)
      | Inr n1 \<Rightarrow>
      (let h3 = store_col h2 dff ''US_CPI_Normalized'' n1 in
       case normalized (column India_CPI (rows (h3 ! dff))) of
         Inl e \<Rightarrow> (h3, dff, Inl e)
       | Inr n2 \<Rightarrow>
       (let h4 = store_col h3 dff ''India_CPI_Normalized'' n2 in
        case normalized (column Exchange_Rate_INR_USD (rows (h4 ! dff))) of
          Inl e \<Rightarrow> (h4, dff, Inl e)
        | Inr n3 \<Rightarrow>
        (let h5 = store_col h4 dff ''Exchange_Rate_Normalized'' n3 in
         case ppp_implied (rows (h5 ! dff)) of
           Inl e \<Rightarrow> (h5, dff, Inl e)
         | Inr p \<Rightarrow>
         (let h6 = store_col h5 dff ''PPP_Implied'' p in
          case getitem (h6 ! dff) ''PPP_Implied'' of
            Inl e \<Rightarrow> (h6, dff, Inl e)
          | Inr implied \<Rightarrow>
              (store_col h6 dff ''PPP_Deviation''
                 (ppp_deviation (column Exchange_Rate_INR_USD (rows (h6 ! dff))) implied),
               dff, Inr m)))))))"

text \<open>
  The frame that a run without exception leaves in \<open>df_filtered\<close>, written out column
  by column; \<open>run_nonempty\<close> below proves that the run produces exactly this frame.
\<close>

definition final_frame :: "row list \<Rightarrow> frame" where
  "final_frame df =
    setitem (setitem (setitem (setitem (setitem (setitem (setitem
      \<lparr>rows = df, derived = []\<rparr>
      ''US_Inflation_YoY'' (inflation_yoy (column US_CPI df)))
      ''India_Inflation_YoY'' (inflation_yoy (column India_CPI df)))
      ''US_CPI_Normalized'' (scale (map (\<lambda>x. fdiv x (hd (column US_CPI df))) (column US_CPI df)) (Fin 100)))
      ''India_CPI_Normalized'' (scale (map (\<lambda>x. fdiv x (hd (column India_CPI df))) (column India_CPI df)) (Fin 100)))
      ''Exchange_Rate_Normalized'' (scale (map (\<lambda>x. fdiv x (hd (column Exchange_Rate_INR_USD df))) (column Exchange_Rate_INR_USD df)) (Fin 100)))
      ''PPP_Implied'' (map (\<lambda>r. fdiv (fmul (Fin (Exchange_Rate_INR_USD (hd df))) r)
                        (fdiv (Fin (India_CPI (hd df))) (Fin (US_CPI (hd df)))))
              (map (\<lambda>(b, a). fdiv b a) (zip (column India_CPI df) (column US_CPI df)))))
      ''PPP_Deviation'' (ppp_deviation (column Exchange_Rate_INR_USD df)
           (map (\<lambda>r. fdiv (fmul (Fin (Exchange_Rate_INR_USD (hd df))) r)
                        (fdiv (Fin (India_CPI (hd df))) (Fin (US_CPI (hd df)))))
              (map (\<lambda>(b, a). fdiv b a) (zip (column India_CPI df) (column US_CPI df)))))"

section \<open>Example tables\<close>

definition tbl :: "row list" where
  "tbl = [\<lparr>Date = ((2020, 1, 31), 0), US_CPI = 100, India_CPI = 100, Exchange_Rate_INR_USD = 70\<rparr>,
          \<lparr>Date = ((2020, 2, 29), 0), US_CPI = 102, India_CPI = 105, Exchange_Rate_INR_USD = 77\<rparr>]"

definition tbl3 :: "row list" where
  "tbl3 = [\<lparr>Date = ((2020, 1, 31), 0), US_CPI = 100, India_CPI = 100, Exchange_Rate_INR_USD = 70\<rparr>,
           \<lparr>Date = ((2020, 2, 29), 0), US_CPI = 101, India_CPI = 102, Exchange_Rate_INR_USD = 71\<rparr>,
           \<lparr>Date = ((2020, 3, 31), 0), US_CPI = 102, India_CPI = 104, Exchange_Rate_INR_USD = 72\<rparr>]"

definition tblz :: "row list" where
  "tblz = [\<lparr>Date = ((2020, 1, 31), 0), US_CPI = 0, India_CPI = 100, Exchange_Rate_INR_USD = 70\<rparr>,
           \<lparr>Date = ((2020, 2, 29), 0), US_CPI = 102, India_CPI = 105, Exchange_Rate_INR_USD = 77\<rparr>]"

definition series_gap :: "fval list" where
  \<comment> \<open>twelve values of 100, a missing value, then 110\<close>
  "series_gap = [Fin 100, Fin 100, Fin 100, Fin 100, Fin 100, Fin 100, Fin 100, Fin 100,
                 Fin 100, Fin 100, Fin 100, Fin 100, NaN, Fin 110]"

definition series13 :: "fval list" where
  "series13 = [Fin 100, Fin 101, Fin 102, Fin 103, Fin 104, Fin 105, Fin 106, Fin 107,
               Fin 108, Fin 109, Fin 110, Fin 111, Fin 112]"

definition tbl_anchor :: "row list" where
  "tbl_anchor =
     [\<lparr>Date = ((2020, 1, 31), 0), US_CPI = 101, India_CPI = 100, Exchange_Rate_INR_USD = 60\<rparr>]"

section \<open>Positional access\<close>

lemma iloc_first: "xs \<noteq> [] \<Longrightarrow> iloc xs 0 = Inr (hd xs)"
  by (cases xs) (simp_all add: iloc_def)

lemma iloc_last: "xs \<noteq> [] \<Longrightarrow> iloc xs (- 1) = Inr (last xs)"
proof -
  assume ne: "xs \<noteq> []"
  then have "nat (- 1 + int (length xs)) = length xs - 1" by (cases xs) simp_all
  with ne show ?thesis by (simp add: iloc_def Let_def last_conv_nth)
qed

lemma iloc_empty: "iloc [] i = Inl IndexError"
  by (simp add: iloc_def Let_def)

lemma column_Nil_iff: "column f df = [] \<longleftrightarrow> df = []"
  by (simp add: column_def)

lemma hd_column: "df \<noteq> [] \<Longrightarrow> hd (column f df) = Fin (f (hd df))"
  by (simp add: column_def hd_map)

lemma last_column: "df \<noteq> [] \<Longrightarrow> last (column f df) = Fin (f (last df))"
  by (simp add: column_def last_map)

section \<open>Summary metrics\<close>

lemma calculate_metrics_nonempty:
  assumes "df \<noteq> []"
  shows "calculate_metrics df = Inr
     (fmul (fsub (fdiv (Fin (US_CPI (last df))) (Fin (US_CPI (hd df)))) (Fin 1)) (Fin 100),
      fmul (fsub (fdiv (Fin (India_CPI (last df))) (Fin (India_CPI (hd df)))) (Fin 1)) (Fin 100),
      fmul (fsub (fdiv (Fin (Exchange_Rate_INR_USD (last df)))
                       (Fin (Exchange_Rate_INR_USD (hd df)))) (Fin 1)) (Fin 100))"
  using assms
  by (simp add: calculate_metrics_def iloc_first iloc_last column_Nil_iff hd_column last_column)

text \<open>
  Claim C1. On a non-empty filtered table the summary metrics are returned, each of the
  three cumulative changes is \<open>(last / first - 1) * 100\<close> of its column (evaluated with
  the float64 division, and equal to the real-number formula when the first value is
  not zero), and the inflation differential is the India change minus the US change.
\<close>

theorem key_metrics_cumulative:
  assumes "df \<noteq> []"
  shows "\<exists>m. key_metrics df = Inr m
    \<and> us_inf m = fmul (fsub (fdiv (Fin (US_CPI (last df))) (Fin (US_CPI (hd df)))) (Fin 1)) (Fin 100)
    \<and> india_inf m =
        fmul (fsub (fdiv (Fin (India_CPI (last df))) (Fin (India_CPI (hd df)))) (Fin 1)) (Fin 100)
    \<and> fx_change m =
        fmul (fsub (fdiv (Fin (Exchange_Rate_INR_USD (last df)))
                         (Fin (Exchange_Rate_INR_USD (hd df)))) (Fin 1)) (Fin 100)
    \<and> (US_CPI (hd df) \<noteq> 0 \<longrightarrow> us_inf m = Fin ((US_CPI (last df) / US_CPI (hd df) - 1) * 100))
    \<and> (India_CPI (hd df) \<noteq> 0 \<longrightarrow>
         india_inf m = Fin ((India_CPI (last df) / India_CPI (hd df) - 1) * 100))
    \<and> (Exchange_Rate_INR_USD (hd df) \<noteq> 0 \<longrightarrow>
         fx_change m =
           Fin ((Exchange_Rate_INR_USD (last df) / Exchange_Rate_INR_USD (hd df) - 1) * 100))
    \<and> inflation_diff m = fsub (india_inf m) (us_inf m)"
  using assms by (simp add: key_metrics_def calculate_metrics_nonempty)

theorem key_metrics_cumulative_witness:
  "tbl \<noteq> [] \<and> (\<exists>m. key_metrics tbl = Inr m \<and> us_inf m = Fin 2 \<and> india_inf m = Fin 5
      \<and> fx_change m = Fin 10 \<and> inflation_diff m = Fin 3)"
  using key_metrics_cumulative [of tbl] by (auto simp add: tbl_def)

section \<open>Date range filter\<close>

lemma filter_range_filter:
  "filter_range df s e = filter (\<lambda>r. s \<le> dt_date (Date r) \<and> dt_date (Date r) \<le> e) df"
  by (induction df) (simp_all add: filter_range_def bool_index_def date_mask_def)

text \<open>
  Claim C7. Filtering an already filtered table with the same bounds changes nothing.
  This holds for every pair of bounds, ordered or not.
\<close>

theorem filter_range_idempotent:
  "filter_range (filter_range raw s e) s e = filter_range raw s e"
  by (simp add: filter_range_filter)

lemma sorted_filter_split:
  fixes f :: "'a \<Rightarrow> 'b::linorder"
  assumes "sorted (map f xs)"
  shows "\<exists>pre post. xs = pre @ filter (\<lambda>r. s \<le> f r \<and> f r \<le> e) xs @ post
            \<and> (\<forall>r \<in> set pre. f r < s) \<and> (\<forall>r \<in> set post. e < f r)"
  using assms
proof (induction xs)
  case Nil
  then show ?case by simp
next
  case (Cons x xs)
  let ?P = "\<lambda>r. s \<le> f r \<and> f r \<le> e"
  from Cons.prems have srt: "sorted (map f xs)" and le: "\<forall>r \<in> set xs. f x \<le> f r"
    by simp_all
  define F where "F = filter ?P xs"
  from Cons.IH [OF srt] obtain pre post where
    eq: "xs = pre @ F @ post" and
    lo: "\<forall>r \<in> set pre. f r < s" and hi: "\<forall>r \<in> set post. e < f r"
    unfolding F_def by blast
  show ?case
  proof (cases "f x < s")
    case True
    then have "filter ?P (x # xs) = F" by (auto simp: F_def)
    then have "x # xs = (x # pre) @ filter ?P (x # xs) @ post"
      using eq by simp
    moreover have "\<forall>r \<in> set (x # pre). f r < s" using True lo by simp
    ultimately show ?thesis using hi by blast
  next
    case ns: False
    show ?thesis
    proof (cases "f x \<le> e")
      case True
      have "pre = []"
      proof (rule ccontr)
        assume "pre \<noteq> []"
        then obtain p where p: "p \<in> set pre" by (cases pre) auto
        then have "p \<in> set xs" using eq by (metis Un_iff set_append)
        then have "f x \<le> f p" using le by blast
        moreover have "f p < s" using lo p by blast
        ultimately show False using ns by simp
      qed
      moreover have "filter ?P (x # xs) = x # F" using True ns by (auto simp: F_def)
      ultimately have "x # xs = [] @ filter ?P (x # xs) @ post"
        using eq by simp
      moreover have "\<forall>r \<in> set ([]::'a list). f r < s" by simp
      ultimately show ?thesis using hi by blast
    next
      case False
      have all_hi: "\<forall>r \<in> set (x # xs). e < f r" using le False by auto
      then have "filter ?P (x # xs) = []" by (auto simp: filter_empty_conv)
      then have "x # xs = [] @ filter ?P (x # xs) @ (x # xs)" by simp
      moreover have "\<forall>r \<in> set ([]::'a list). f r < s" by simp
      ultimately show ?thesis using all_hi by blast
    qed
  qed
qed

text \<open>
  Claim C8. On a table sorted ascending by date the filter returns exactly the rows whose
  date lies between the two bounds, both included, in their original order; these rows
  are one contiguous block of the table (every row before the block is earlier than the
  start date, every row after it later than the end date); and the result is empty
  when no row is in range.
\<close>

theorem filter_range_contiguous:
  assumes "sorted (map (\<lambda>r. dt_date (Date r)) raw)"
  shows "filter_range raw s e = filter (\<lambda>r. s \<le> dt_date (Date r) \<and> dt_date (Date r) \<le> e) raw
    \<and> (\<forall>r. r \<in> set (filter_range raw s e) \<longleftrightarrow>
           r \<in> set raw \<and> s \<le> dt_date (Date r) \<and> dt_date (Date r) \<le> e)
    \<and> (\<exists>pre post. raw = pre @ filter_range raw s e @ post
           \<and> (\<forall>r \<in> set pre. dt_date (Date r) < s) \<and> (\<forall>r \<in> set post. e < dt_date (Date r)))
    \<and> ((\<forall>r \<in> set raw. \<not> (s \<le> dt_date (Date r) \<and> dt_date (Date r) \<le> e)) \<longrightarrow>
           filter_range raw s e = [])"
proof -
  have a: "filter_range raw s e = filter (\<lambda>r. s \<le> dt_date (Date r) \<and> dt_date (Date r) \<le> e) raw"
    by (rule filter_range_filter)
  have b: "\<forall>r. r \<in> set (filter_range raw s e) \<longleftrightarrow>
           r \<in> set raw \<and> s \<le> dt_date (Date r) \<and> dt_date (Date r) \<le> e"
    unfolding a by simp
  have c: "\<exists>pre post. raw = pre @ filter_range raw s e @ post
           \<and> (\<forall>r \<in> set pre. dt_date (Date r) < s) \<and> (\<forall>r \<in> set post. e < dt_date (Date r))"
    unfolding a by (rule sorted_filter_split [OF assms])
  have d: "(\<forall>r \<in> set raw. \<not> (s \<le> dt_date (Date r) \<and> dt_date (Date r) \<le> e)) \<longrightarrow>
           filter_range raw s e = []"
    unfolding a by (simp add: filter_empty_conv)
  from a b c d show ?thesis by blast
qed

theorem filter_range_contiguous_witness:
  "sorted (map (\<lambda>r. dt_date (Date r)) tbl3)
   \<and> filter_range tbl3 (2020, 2, 1) (2020, 2, 29) = [tbl3 ! 1]
   \<and> (\<exists>pre post. tbl3 = pre @ filter_range tbl3 (2020, 2, 1) (2020, 2, 29) @ post
         \<and> (\<forall>r \<in> set pre. dt_date (Date r) < (2020, 2, 1))
         \<and> (\<forall>r \<in> set post. (2020, 2, 29) < dt_date (Date r)))"
proof -
  have s: "sorted (map (\<lambda>r. dt_date (Date r)) tbl3)"
    by (simp add: tbl3_def dt_date_def)
  have v: "filter_range tbl3 (2020, 2, 1) (2020, 2, 29) = [tbl3 ! 1]"
    by (simp add: filter_range_filter tbl3_def dt_date_def)
  from filter_range_contiguous [OF s, of "(2020, 2, 1)" "(2020, 2, 29)"] s v
  show ?thesis by blast
qed

section \<open>Year-over-year change\<close>

lemma length_shift: "length (shift n xs) = length xs"
  by (simp add: shift_def)

lemma nth_shift:
  "i < length xs \<Longrightarrow> shift n xs ! i = (if i < n then NaN else xs ! (i - n))"
  by (auto simp add: shift_def nth_append)

lemma fdiv_NaN_right: "fdiv x NaN = NaN"
  by (cases x) simp_all

lemma length_ffill_from: "length (ffill_from p xs) = length xs"
  by (induction xs arbitrary: p) (simp_all add: Let_def)

lemma ffill_from_no_NaN: "NaN \<notin> set xs \<Longrightarrow> ffill_from p xs = xs"
  by (induction xs arbitrary: p) (auto simp add: Let_def)

lemma ffill_no_NaN: "NaN \<notin> set xs \<Longrightarrow> ffill xs = xs"
  by (simp add: ffill_def ffill_from_no_NaN)

lemma length_pct_change: "length (pct_change n xs) = length xs"
  by (simp add: pct_change_def Let_def length_shift ffill_def length_ffill_from)

lemma nth_pct_change:
  "NaN \<notin> set xs \<Longrightarrow> i < length xs \<Longrightarrow>
   pct_change n xs ! i = (if i < n then NaN else fsub (fdiv (xs ! i) (xs ! (i - n))) (Fin 1))"
  by (simp add: pct_change_def Let_def ffill_no_NaN length_shift nth_shift fdiv_NaN_right)

text \<open>
  Claim C4, as amended. For a series that holds no NaN, the year-over-year column has
  the length of its input; at every position before the twelfth it is NaN (null), and
  at every position \<open>i\<close> from the twelfth on it is
  \<open>(series[i] / series[i - 12] - 1) * 100\<close>, the offset counting rows and never looking
  at a date. Where the earlier value is a nonzero number this is the real-number
  formula.
\<close>

theorem inflation_yoy_values:
  assumes "NaN \<notin> set xs" and "i < length xs"
  shows "length (inflation_yoy xs) = length xs
    \<and> (i < 12 \<longrightarrow> inflation_yoy xs ! i = NaN)
    \<and> (12 \<le> i \<longrightarrow>
         inflation_yoy xs ! i = fmul (fsub (fdiv (xs ! i) (xs ! (i - 12))) (Fin 1)) (Fin 100))
    \<and> (12 \<le> i \<longrightarrow> (\<forall>a b. xs ! i = Fin a \<and> xs ! (i - 12) = Fin b \<and> b \<noteq> 0 \<longrightarrow>
         inflation_yoy xs ! i = Fin ((a / b - 1) * 100)))"
  using assms
  by (auto simp add: inflation_yoy_def scale_def length_pct_change nth_pct_change)

theorem inflation_yoy_values_witness:
  "NaN \<notin> set series13 \<and> (12::nat) < length series13
   \<and> inflation_yoy series13 ! 11 = NaN
   \<and> inflation_yoy series13 ! 12 = Fin 12"
proof -
  have n: "NaN \<notin> set series13" by (simp add: series13_def)
  have l: "(12::nat) < length series13" by (simp add: series13_def)
  have l11: "(11::nat) < length series13" by (simp add: series13_def)
  have a: "inflation_yoy series13 ! 11 = NaN"
    using inflation_yoy_values [OF n l11] by simp
  have b: "inflation_yoy series13 ! 12 = Fin 12"
    using inflation_yoy_values [OF n l] by (simp add: series13_def)
  from n l a b show ?thesis by blast
qed

text \<open>
  Without the condition the claim fails. In a series of length 14 whose thirteenth
  value is missing, the forward fill puts the twelfth value in its place, so the
  year-over-year value at position 12 is \<open>(100 / 100 - 1) * 100 = 0\<close>, where the
  formula on the series itself, \<open>(NaN / 100 - 1) * 100\<close>, is NaN.
\<close>

theorem inflation_yoy_gap_counterexample:
  "(12::nat) < length series_gap
   \<and> inflation_yoy series_gap ! 12 = Fin 0
   \<and> fmul (fsub (fdiv (series_gap ! 12) (series_gap ! (12 - 12))) (Fin 1)) (Fin 100) = NaN
   \<and> inflation_yoy series_gap ! 12
       \<noteq> fmul (fsub (fdiv (series_gap ! 12) (series_gap ! (12 - 12))) (Fin 1)) (Fin 100)"
  by (simp add: series_gap_def inflation_yoy_def scale_def pct_change_def Let_def ffill_def
      shift_def)

section \<open>Normalisation\<close>

lemma length_scale: "length (scale xs k) = length xs"
  by (simp add: scale_def)

text \<open>
  Claim C6, as amended. For a non-empty series whose first element is a nonzero number,
  the normalised series exists, every element is the input divided by the first
  element times 100, and the first element is 100.
\<close>

theorem normalized_first_is_100:
  assumes "xs \<noteq> []" and "hd xs = Fin b" and "b \<noteq> 0"
  shows "\<exists>ys. normalized xs = Inr ys \<and> length ys = length xs \<and> ys ! 0 = Fin 100
     \<and> (\<forall>i < length xs. ys ! i = fmul (fdiv (xs ! i) (Fin b)) (Fin 100))"
proof -
  from assms(1) have pos: "0 < length xs" by simp
  from assms(1,2) have x0: "xs ! 0 = Fin b" by (simp add: hd_conv_nth)
  let ?ys = "scale (map (\<lambda>x. fdiv x (Fin b)) xs) (Fin 100)"
  have n: "normalized xs = Inr ?ys"
    using assms(1,2) by (simp add: normalized_def iloc_first)
  have l: "length ?ys = length xs" by (simp add: scale_def)
  have v: "\<forall>i < length xs. ?ys ! i = fmul (fdiv (xs ! i) (Fin b)) (Fin 100)"
    by (simp add: scale_def)
  have "?ys ! 0 = Fin 100"
    using v pos x0 assms(3) by simp
  with n l v show ?thesis by blast
qed

theorem normalized_first_is_100_witness:
  "column US_CPI tbl \<noteq> [] \<and> hd (column US_CPI tbl) = Fin 100 \<and> (100::real) \<noteq> 0
   \<and> normalized (column US_CPI tbl) = Inr [Fin 100, Fin 102]"
proof -
  have c: "column US_CPI tbl = [Fin 100, Fin 102]" by (simp add: column_def tbl_def)
  have h: "column US_CPI tbl \<noteq> []" "hd (column US_CPI tbl) = Fin 100" "(100::real) \<noteq> 0"
    by (simp_all add: c)
  from normalized_first_is_100 [OF h] obtain ys where
    ys: "normalized (column US_CPI tbl) = Inr ys" "length ys = length (column US_CPI tbl)"
        "\<forall>i < length (column US_CPI tbl). ys ! i = fmul (fdiv (column US_CPI tbl ! i) (Fin 100)) (Fin 100)"
    by blast
  have "ys = [Fin 100, Fin 102]"
    using ys(2,3) unfolding c by (auto simp add: list_eq_iff_nth_eq less_Suc_eq)
  with ys(1) h show ?thesis by simp
qed

text \<open>
  The claim fails without the condition on the first element: with a first value of
  zero the first normalised value is \<open>0 / 0 * 100\<close>, which is NaN.
\<close>

theorem normalized_zero_base_counterexample:
  "column US_CPI tblz \<noteq> []
   \<and> normalized (column US_CPI tblz) = Inr [NaN, PInf]
   \<and> [NaN, PInf] ! 0 \<noteq> Fin 100"
  by (simp add: normalized_def iloc_def column_def tblz_def scale_def signed_inf_def inf_times_def)

section \<open>Purchasing power parity\<close>

subsection \<open>Rounding error of one operation\<close>

lemma rhe_abs: "\<bar>of_int (rhe y) - y\<bar> \<le> 1 / 2"
  unfolding rhe_def Let_def by (auto simp: abs_le_iff)

lemma powr_powi: "(2::real) powr (real_of_int k) = 2 powi k"
  by (simp add: powr_real_of_int')

lemma powr_powi_Suc: "(2::real) powr (real_of_int k + 1) = 2 powi (k + 1)"
  using powr_powi [of "k + 1"] by simp

lemma rhe_eqI:
  assumes "of_int n - 1 / 2 < y" and "y < of_int n + 1 / 2"
  shows "rhe y = n"
proof (cases "of_int n \<le> y")
  case True
  then have f: "\<lfloor>y\<rfloor> = n" using assms(2) by (intro floor_unique) simp_all
  then show ?thesis using assms(2) by (simp add: rhe_def Let_def)
next
  case False
  then have f: "\<lfloor>y\<rfloor> = n - 1" using assms(1) by (intro floor_unique) simp_all
  then show ?thesis using assms(1) by (simp add: rhe_def Let_def)
qed

lemma pw_pos: "0 < (2::real) powi n"
  by simp

lemma pw_mono: "m \<le> n \<Longrightarrow> (2::real) powi m \<le> 2 powi n"
  by (rule power_int_increasing) simp_all

lemma pw_add: "(2::real) powi (m + n) = 2 powi m * 2 powi n"
  by (simp add: power_int_add)

lemma pw_diff: "(2::real) powi (m - n) = 2 powi m / 2 powi n"
  by (simp add: power_int_diff)

lemma mag_nonzero: "mag m n x \<Longrightarrow> x \<noteq> 0"
proof
  assume "mag m n x" and "x = 0"
  then have "(2::real) powi m \<le> 0" by (simp add: mag_def)
  moreover have "0 < (2::real) powi m" by (rule pw_pos)
  ultimately show False by linarith
qed

lemma mag_weaken: "mag m n x \<Longrightarrow> m' \<le> m \<Longrightarrow> n \<le> n' \<Longrightarrow> mag m' n' x"
  unfolding mag_def using pw_mono [of m' m] pw_mono [of n n'] by linarith

lemma mag_mult:
  assumes "mag m n x" and "mag m' n' y"
  shows "mag (m + m') (n + n') (x * y)"
proof -
  have "2 powi m * 2 powi m' \<le> \<bar>x\<bar> * \<bar>y\<bar>"
    using assms unfolding mag_def by (intro mult_mono) (simp_all add: less_imp_le)
  moreover have "\<bar>x\<bar> * \<bar>y\<bar> \<le> 2 powi n * 2 powi n'"
    using assms unfolding mag_def by (intro mult_mono) simp_all
  ultimately show ?thesis by (simp add: mag_def pw_add abs_mult)
qed

lemma mag_div:
  assumes "mag m n x" and "mag m' n' y"
  shows "mag (m - n') (n - m') (x / y)"
proof -
  have y0: "0 < \<bar>y\<bar>" using mag_nonzero [OF assms(2)] by simp
  have "2 powi m / 2 powi n' \<le> \<bar>x\<bar> / \<bar>y\<bar>"
    using assms y0 unfolding mag_def by (intro frac_le) (simp_all add: less_imp_le)
  moreover have "\<bar>x\<bar> / \<bar>y\<bar> \<le> 2 powi n / 2 powi m'"
    using assms unfolding mag_def by (intro frac_le) simp_all
  ultimately show ?thesis by (simp add: mag_def pw_diff)
qed

lemma mag_perturb:
  assumes "mag m n x" and "\<bar>d\<bar> \<le> 2 powi (- 53)"
  shows "mag (m - 1) (n + 1) (x * (1 + d))"
proof -
  have "(2::real) powi (- 53) \<le> 1 / 2" by simp
  with assms(2) have d: "1 / 2 \<le> 1 + d" "1 + d \<le> 2" by (simp_all add: abs_le_iff)
  have "mag (- 1) 1 (1 + d)" using d by (simp add: mag_def)
  from mag_mult [OF assms(1) this] show ?thesis by simp
qed

lemma binade_from_eq:
  assumes "2 powi e0 \<le> x" and "x < 2 powi (e0 + 1)" and "e0 \<le> e" and "e - e0 \<le> int k"
  shows "binade_from k e x = e0"
  using assms(3,4)
proof (induction k arbitrary: e)
  case 0
  then show ?case by simp
next
  case (Suc k)
  show ?case
  proof (cases "2 powi e \<le> x")
    case True
    have "\<not> e0 + 1 \<le> e"
    proof
      assume "e0 + 1 \<le> e"
      from pw_mono [OF this] True assms(2) show False by linarith
    qed
    with Suc.prems(1) have "e = e0" by simp
    with True show ?thesis by simp
  next
    case False
    with assms(1) have "e \<noteq> e0" by auto
    with Suc.prems have "e0 \<le> e - 1" and "e - 1 - e0 \<le> int k" by simp_all
    from Suc.IH [OF this] False show ?thesis by simp
  qed
qed

lemma binade_eqI:
  assumes "2 powi e \<le> \<bar>x\<bar>" and "\<bar>x\<bar> < 2 powi (e + 1)" and "- 1100 \<le> e" and "e \<le> 1100"
  shows "binade x = e"
  unfolding binade_def using assms(3,4) by (intro binade_from_eq [OF assms(1,2)]) simp_all

lemma binade_normal:
  assumes "mag (- 1022) 1023 x"
  shows "2 powi (binade x) \<le> \<bar>x\<bar>" and "\<bar>x\<bar> < 2 powi (binade x + 1)"
    and "- 1022 \<le> binade x"
proof -
  from assms have lo: "2 powi (- 1022) \<le> \<bar>x\<bar>" and hi: "\<bar>x\<bar> \<le> 2 powi 1023"
    by (simp_all only: mag_def)
  have pos: "0 < \<bar>x\<bar>" using mag_nonzero [OF assms] by simp
  define e where "e = \<lfloor>log 2 \<bar>x\<bar>\<rfloor>"
  have "2 powr (of_int e) \<le> \<bar>x\<bar> \<and> \<bar>x\<bar> < 2 powr (of_int e + 1)"
    using floor_log_eq_powr_iff [OF pos, of 2 e] by (simp add: e_def)
  then have B1: "2 powi e \<le> \<bar>x\<bar>" and B2: "\<bar>x\<bar> < 2 powi (e + 1)"
    by (simp_all add: powr_powi powr_powi_Suc)
  have e_lo: "- 1022 \<le> e"
  proof (rule ccontr)
    assume "\<not> - 1022 \<le> e"
    then have "e + 1 \<le> - 1022" by simp
    from pw_mono [OF this] B2 lo show False by linarith
  qed
  have e_hi: "e \<le> 1023"
  proof (rule ccontr)
    assume "\<not> e \<le> 1023"
    then have "1024 \<le> e" by simp
    from pw_mono [OF this] B1 hi pw_mono [of 1023 1024] have "(2::real) powi 1024 \<le> 2 powi 1023"
      by linarith
    then show False by simp
  qed
  have "binade x = e" using e_lo e_hi by (intro binade_eqI [OF B1 B2]) simp_all
  with B1 B2 e_lo show "2 powi (binade x) \<le> \<bar>x\<bar>" and "\<bar>x\<bar> < 2 powi (binade x + 1)"
    and "- 1022 \<le> binade x" by simp_all
qed

text \<open>
  A result in the range of the normal float64 numbers is rounded with a relative error
  of at most \<open>2^-53\<close> and never to an infinity.
\<close>

lemma round64_normal:
  assumes "mag (- 1022) 1023 x"
  shows "\<exists>d. round64 x = Fin (x * (1 + d)) \<and> \<bar>d\<bar> \<le> 2 powi (- 53)"
proof -
  from assms have lo: "2 powi (- 1022) \<le> \<bar>x\<bar>" and hi: "\<bar>x\<bar> \<le> 2 powi 1023"
    by (simp_all only: mag_def)
  have x0: "x \<noteq> 0" by (rule mag_nonzero [OF assms])
  define e where "e = binade x"
  have B1: "2 powi e \<le> \<bar>x\<bar>" and B2: "\<bar>x\<bar> < 2 powi (e + 1)" and e_lo: "- 1022 \<le> e"
    unfolding e_def by (rule binade_normal [OF assms])+
  define u where "u = (2::real) powi (e - 52)"
  have u_pos: "0 < u" unfolding u_def by (rule pw_pos)
  define y where "y = of_int (rhe (x / u)) * u"
  have "y - x = (of_int (rhe (x / u)) - x / u) * u"
    using u_pos by (simp add: y_def algebra_simps)
  then have "\<bar>y - x\<bar> = \<bar>of_int (rhe (x / u)) - x / u\<bar> * u"
    using u_pos by (simp add: abs_mult)
  also have "\<dots> \<le> (1 / 2) * u"
    using rhe_abs [of "x / u"] u_pos by (intro mult_right_mono) simp_all
  finally have err: "\<bar>y - x\<bar> \<le> u / 2" by simp
  have "u = 2 powi e * 2 powi (- 52)" unfolding u_def using pw_add [of e "- 52"] by simp
  also have "\<dots> \<le> \<bar>x\<bar> * 2 powi (- 52)"
    using B1 by (intro mult_right_mono) simp_all
  finally have u_le: "u \<le> \<bar>x\<bar> * 2 powi (- 52)" .
  have half: "(2::real) powi (- 52) / 2 = 2 powi (- 53)" by simp
  have err2: "\<bar>y - x\<bar> \<le> \<bar>x\<bar> * 2 powi (- 53)"
  proof -
    from u_le have "u / 2 \<le> \<bar>x\<bar> * 2 powi (- 52) / 2" by simp
    also have "\<dots> = \<bar>x\<bar> * (2 powi (- 52) / 2)" by simp
    finally show ?thesis using err half by simp
  qed
  define d where "d = (y - x) / x"
  have yd: "y = x * (1 + d)" using x0 by (simp add: d_def field_simps)
  have "\<bar>d\<bar> = \<bar>y - x\<bar> / \<bar>x\<bar>" by (simp add: d_def)
  also have "\<dots> \<le> (\<bar>x\<bar> * 2 powi (- 53)) / \<bar>x\<bar>"
    using err2 by (intro divide_right_mono) simp_all
  also have "\<dots> = 2 powi (- 53)" using x0 by simp
  finally have d_le: "\<bar>d\<bar> \<le> 2 powi (- 53)" .
  have "mag (- 1022 - 1) (1023 + 1) (x * (1 + d))" by (rule mag_perturb [OF assms d_le])
  then have y_le: "\<bar>y\<bar> \<le> 2 powi 1024" by (simp add: mag_def yd)
  have y_ne: "\<bar>y\<bar> \<noteq> 2 powi 1024"
  proof
    assume eq: "\<bar>y\<bar> = 2 powi 1024"
    have "\<bar>y\<bar> \<le> \<bar>x\<bar> + \<bar>y - x\<bar>" by simp
    also have "\<dots> \<le> \<bar>x\<bar> + \<bar>x\<bar> * 2 powi (- 53)" using err2 by simp
    also have "\<dots> = \<bar>x\<bar> * (1 + 2 powi (- 53))" by (simp add: algebra_simps)
    also have "\<dots> \<le> 2 powi 1023 * (1 + 2 powi (- 53))"
      using hi by (intro mult_right_mono) simp_all
    also have "\<dots> < 2 powi 1023 * 2"
      by (intro mult_strict_left_mono pw_pos) simp
    also have "\<dots> = 2 powi 1024" using pw_add [of 1023 1] by simp
    finally show False using eq by simp
  qed
  have "round64 x = Fin y"
    using x0 e_lo y_le y_ne
    by (simp only: round64_def Let_def e_def [symmetric] max_absorb1 u_def [symmetric]
        y_def [symmetric] if_False not_le [symmetric] simp_thms) (simp add: not_le)
  with yd d_le show ?thesis by blast
qed


subsection \<open>The anchor\<close>

lemma fdiv64_Fin: "a \<noteq> 0 \<Longrightarrow> fdiv64 (Fin b) (Fin a) = round64 (b / a)"
  by (simp add: fdiv64_def round_cell_def)

lemma fmul64_Fin: "fmul64 (Fin x) (Fin y) = round64 (x * y)"
  by (simp add: fmul64_def round_cell_def)

lemma anchor64:
  assumes fx: "mag (- 300) 300 fx" and b: "mag (- 300) 300 b" and a: "mag (- 300) 300 a"
  shows "\<exists>q. fdiv64 (fmul64 (Fin fx) (fdiv64 (Fin b) (Fin a))) (fdiv64 (Fin b) (Fin a)) = Fin q
           \<and> \<bar>q - fx\<bar> \<le> 2 powi (- 51) * \<bar>fx\<bar>"
proof -
  have a0: "a \<noteq> 0" by (rule mag_nonzero [OF a])
  have m0: "mag (- 600) 600 (b / a)" using mag_div [OF b a] by simp
  from round64_normal [OF mag_weaken [OF m0]] obtain d0 where
    r0: "round64 (b / a) = Fin (b / a * (1 + d0))" and d0: "\<bar>d0\<bar> \<le> 2 powi (- 53)"
    by auto
  define r where "r = b / a * (1 + d0)"
  have R: "fdiv64 (Fin b) (Fin a) = Fin r" using r0 a0 by (simp add: fdiv64_Fin r_def)
  have mr: "mag (- 601) 601 r" using mag_perturb [OF m0 d0] by (simp add: r_def)
  have r_ne: "r \<noteq> 0" by (rule mag_nonzero [OF mr])
  have m1: "mag (- 901) 901 (fx * r)" using mag_mult [OF fx mr] by simp
  from round64_normal [OF mag_weaken [OF m1]] obtain d1 where
    p0: "round64 (fx * r) = Fin (fx * r * (1 + d1))" and d1: "\<bar>d1\<bar> \<le> 2 powi (- 53)"
    by auto
  define p where "p = fx * r * (1 + d1)"
  have P: "fmul64 (Fin fx) (Fin r) = Fin p" using p0 by (simp add: fmul64_Fin p_def)
  have pr: "p / r = fx * (1 + d1)" using r_ne by (simp add: p_def)
  have m2: "mag (- 301) 301 (p / r)" using mag_perturb [OF fx d1] by (simp add: pr)
  from round64_normal [OF mag_weaken [OF m2]] obtain d2 where
    q0: "round64 (p / r) = Fin (p / r * (1 + d2))" and d2: "\<bar>d2\<bar> \<le> 2 powi (- 53)"
    by auto
  define q where "q = fx * (1 + d1) * (1 + d2)"
  have Q: "fdiv64 (Fin p) (Fin r) = Fin q" using q0 r_ne by (simp add: fdiv64_Fin q_def pr)
  have "q - fx = fx * (d1 + d2 + d1 * d2)" by (simp add: q_def algebra_simps)
  then have "\<bar>q - fx\<bar> = \<bar>fx\<bar> * \<bar>d1 + d2 + d1 * d2\<bar>" by (simp add: abs_mult)
  also have "\<dots> \<le> \<bar>fx\<bar> * 2 powi (- 51)"
  proof (intro mult_left_mono)
    have e: "(2::real) powi (- 53) = 1 / 9007199254740992" by simp
    have "\<bar>d1 * d2\<bar> \<le> \<bar>d1\<bar> * 1"
      unfolding abs_mult using d2 e by (intro mult_left_mono) simp_all
    then have "\<bar>d1 + d2 + d1 * d2\<bar> \<le> 3 * 2 powi (- 53)"
      using d1 d2 abs_triangle_ineq [of "d1 + d2" "d1 * d2"] abs_triangle_ineq [of d1 d2]
      by linarith
    also have "\<dots> \<le> 2 powi (- 51)" by simp
    finally show "\<bar>d1 + d2 + d1 * d2\<bar> \<le> 2 powi (- 51)" .
  qed simp
  finally have "\<bar>q - fx\<bar> \<le> 2 powi (- 51) * \<bar>fx\<bar>" by (simp add: mult.commute)
  with R P Q show ?thesis by simp
qed

text \<open>
  Claim C5, as amended. On a non-empty filtered table whose first-row price indices
  and exchange rate are nonzero, with magnitudes between \<open>2^-300\<close> and \<open>2^300\<close> so
  that no intermediate result overflows or underflows, the implied rate computed in
  float64 by \<open>fx[0] * (cpi_b[i] / cpi_a[i]) / (cpi_b[0] / cpi_a[0])\<close> exists and its
  first value is a number that differs from the first actual exchange rate by at most
  \<open>2^-51\<close> times that rate.
\<close>

theorem ppp_implied64_anchor:
  assumes "df \<noteq> []"
      and "mag (- 300) 300 (US_CPI (hd df))"
      and "mag (- 300) 300 (India_CPI (hd df))"
      and "mag (- 300) 300 (Exchange_Rate_INR_USD (hd df))"
  shows "\<exists>ys q. ppp_implied64 df = Inr ys \<and> length ys = length df \<and> ys ! 0 = Fin q
     \<and> \<bar>q - Exchange_Rate_INR_USD (hd df)\<bar> \<le> 2 powi (- 51) * \<bar>Exchange_Rate_INR_USD (hd df)\<bar>"
proof -
  let ?fx0 = "Fin (Exchange_Rate_INR_USD (hd df))"
  let ?b0 = "Fin (India_CPI (hd df))" and ?a0 = "Fin (US_CPI (hd df))"
  let ?ys = "map (\<lambda>r. fdiv64 (fmul64 ?fx0 r) (fdiv64 ?b0 ?a0))
               (map (\<lambda>(b, a). fdiv64 b a) (zip (column India_CPI df) (column US_CPI df)))"
  from assms(1) have pos: "0 < length df" by simp
  have n: "ppp_implied64 df = Inr ?ys"
    using assms(1) by (simp add: ppp_implied64_def iloc_first column_Nil_iff hd_column)
  have l: "length ?ys = length df" by (simp add: column_def)
  have "?ys ! 0 = fdiv64 (fmul64 ?fx0 (fdiv64 ?b0 ?a0)) (fdiv64 ?b0 ?a0)"
    using pos assms(1) by (simp add: column_def hd_conv_nth)
  with anchor64 [OF assms(4) assms(3) assms(2)] n l show ?thesis by metis
qed

theorem ppp_implied64_anchor_witness:
  "tbl \<noteq> [] \<and> mag (- 300) 300 (US_CPI (hd tbl)) \<and> mag (- 300) 300 (India_CPI (hd tbl))
   \<and> mag (- 300) 300 (Exchange_Rate_INR_USD (hd tbl))
   \<and> (\<exists>ys q. ppp_implied64 tbl = Inr ys \<and> ys ! 0 = Fin q \<and> \<bar>q - 70\<bar> \<le> 2 powi (- 51) * 70)"
proof -
  have ne: "tbl \<noteq> []" by (simp add: tbl_def)
  have m: "mag (- 300) 300 (US_CPI (hd tbl))" "mag (- 300) 300 (India_CPI (hd tbl))"
    "mag (- 300) 300 (Exchange_Rate_INR_USD (hd tbl))"
    by (simp_all add: tbl_def mag_def)
  have fx: "Exchange_Rate_INR_USD (hd tbl) = 70" by (simp add: tbl_def)
  from ppp_implied64_anchor [OF ne m] ne m show ?thesis
    unfolding fx by auto
qed

text \<open>
  The two values need not be equal. With an exchange rate of 60 and indices 100 and 101
  the ratio rounds to \<open>1114752383012499 / 2^50\<close>, sixty times it lies exactly between
  two float64 numbers and goes to the even one, and the quotient rounds to
  \<open>8444249301319679 / 2^47\<close>, the float64 just below 60.
\<close>

lemma rhe_tieI:
  assumes "y = of_int n + 1 / 2" and "even n"
  shows "rhe y = n"
proof -
  have f: "\<lfloor>y\<rfloor> = n" unfolding assms(1) by (intro floor_unique) simp_all
  show ?thesis using assms(2) by (simp add: rhe_def Let_def f) (simp add: assms(1))
qed

lemma round64_eqI:
  assumes "2 powi e \<le> \<bar>x\<bar>" and "\<bar>x\<bar> < 2 powi (e + 1)" and "- 1022 \<le> e"
      and "e \<le> 1023"
      and "rhe (x / 2 powi (e - 52)) = n"
      and "\<bar>of_int n * (2::real) powi (e - 52)\<bar> < 2 powi 1024"
  shows "round64 x = Fin (of_int n * 2 powi (e - 52))"
proof -
  have x0: "x \<noteq> 0"
  proof
    assume "x = 0"
    with assms(1) have "(2::real) powi e \<le> 0" by simp
    with pw_pos [of e] show False by linarith
  qed
  have b: "binade x = e" using assms(3,4) by (intro binade_eqI [OF assms(1,2)]) simp_all
  show ?thesis
    using x0 assms(3,6)
    by (simp only: round64_def Let_def b max_absorb1 assms(5) if_False not_le [symmetric]
        simp_thms)
qed

lemma ratio_anchor: "round64 (100 / 101) = Fin (1114752383012499 / 1125899906842624)"
proof -
  have "rhe ((100 / 101) / 2 powi (- 1 - 52)) = 8918019064099992"
    by (rule rhe_eqI) simp_all
  from round64_eqI [OF _ _ _ _ this] show ?thesis by simp
qed

lemma product_anchor:
  "round64 (60 * (1114752383012499 / 1125899906842624)) = Fin (4180321436296871 / 70368744177664)"
proof -
  have "rhe ((60 * (1114752383012499 / 1125899906842624)) / 2 powi (5 - 52)) = 8360642872593742"
    by (rule rhe_tieI) simp_all
  from round64_eqI [OF _ _ _ _ this] show ?thesis by simp
qed

lemma quotient_anchor:
  "round64 ((4180321436296871 / 70368744177664) / (1114752383012499 / 1125899906842624))
     = Fin (8444249301319679 / 140737488355328)"
proof -
  have "rhe (((4180321436296871 / 70368744177664) / (1114752383012499 / 1125899906842624))
              / 2 powi (5 - 52)) = 8444249301319679"
    by (rule rhe_eqI) simp_all
  from round64_eqI [OF _ _ _ _ this] show ?thesis by simp
qed

theorem ppp_anchor_rounding_counterexample:
  "ppp_implied64 tbl_anchor = Inr [Fin (8444249301319679 / 140737488355328)]
   \<and> Fin (8444249301319679 / 140737488355328) \<noteq> Fin (Exchange_Rate_INR_USD (hd tbl_anchor))"
proof -
  let ?r = "Fin (1114752383012499 / 1125899906842624)"
  let ?p = "Fin (4180321436296871 / 70368744177664)"
  have D: "ppp_implied64 tbl_anchor =
      Inr [fdiv64 (fmul64 (Fin 60) (fdiv64 (Fin 100) (Fin 101))) (fdiv64 (Fin 100) (Fin 101))]"
    by (simp add: ppp_implied64_def tbl_anchor_def iloc_def column_def)
  have R: "fdiv64 (Fin 100) (Fin 101) = ?r"
    using ratio_anchor by (simp add: fdiv64_Fin)
  have P: "fmul64 (Fin 60) ?r = ?p"
    using product_anchor by (simp only: fmul64_Fin)
  have r0: "(1114752383012499 / 1125899906842624 :: real) \<noteq> 0" by simp
  have Q: "fdiv64 ?p ?r = Fin (8444249301319679 / 140737488355328)"
    using quotient_anchor by (simp only: fdiv64_Fin [OF r0])
  have N: "Fin (8444249301319679 / 140737488355328) \<noteq> Fin (Exchange_Rate_INR_USD (hd tbl_anchor))"
    by (simp add: tbl_anchor_def)
  from N show ?thesis by (simp only: D R P Q simp_thms)
qed

section \<open>The run and its store\<close>

lemma nth_new: "(h @ [f]) ! length h = f"
  by simp

lemma store_col_new: "store_col (h @ [f]) (length h) name vals = h @ [setitem f name vals]"
  by (simp add: store_col_def)

lemma rows_setitem: "rows (setitem f name vals) = rows f"
  by (simp add: setitem_def)

lemma getitem_setitem: "getitem (setitem f name vals) name = Inr vals"
proof -
  have "map_of (map (\<lambda>(k, v). if k = name then (k, vals) else (k, v)) al) name = Some vals"
    if "name \<in> set (map fst al)" for al :: "(string \<times> fval list) list"
    using that by (induction al) auto
  moreover have "map_of (al @ [(name, vals)]) name = Some vals"
    if "name \<notin> set (map fst al)" for al :: "(string \<times> fval list) list"
    using that by (induction al) auto
  ultimately show ?thesis
    by (simp add: getitem_def setitem_def)
qed

lemma key_metrics_empty: "key_metrics [] = Inl IndexError"
  by (simp add: key_metrics_def calculate_metrics_def column_def iloc_empty)

lemma normalized_empty: "normalized [] = Inl IndexError"
  by (simp add: normalized_def iloc_empty)

lemma ppp_implied_empty: "ppp_implied [] = Inl IndexError"
  by (simp add: ppp_implied_def column_def iloc_empty)

lemma run_empty:
  "filter_range (rows (h ! a)) s e = [] \<Longrightarrow>
   run h a s e = (h @ [\<lparr>rows = [], derived = []\<rparr>], length h, Inl IndexError)"
  by (simp add: run_def new_frame_def key_metrics_empty)

lemma normalized_nonempty:
  "xs \<noteq> [] \<Longrightarrow> normalized xs = Inr (scale (map (\<lambda>x. fdiv x (hd xs)) xs) (Fin 100))"
  by (simp add: normalized_def iloc_first)

lemma ppp_implied_nonempty:
  "df \<noteq> [] \<Longrightarrow> ppp_implied df =
     Inr (map (\<lambda>r. fdiv (fmul (Fin (Exchange_Rate_INR_USD (hd df))) r)
                        (fdiv (Fin (India_CPI (hd df))) (Fin (US_CPI (hd df)))))
              (map (\<lambda>(b, a). fdiv b a) (zip (column India_CPI df) (column US_CPI df))))"
  by (simp add: ppp_implied_def iloc_first column_Nil_iff hd_column)

lemma key_metrics_nonempty: "df \<noteq> [] \<Longrightarrow> \<exists>m. key_metrics df = Inr m"
  by (simp add: key_metrics_def calculate_metrics_nonempty)

lemma run_nonempty:
  assumes "filter_range (rows (h ! a)) s e \<noteq> []"
  shows "\<exists>m. key_metrics (filter_range (rows (h ! a)) s e) = Inr m
     \<and> run h a s e = (h @ [final_frame (filter_range (rows (h ! a)) s e)], length h, Inr m)"
proof -
  let ?df = "filter_range (rows (h ! a)) s e"
  from key_metrics_nonempty [OF assms] obtain m where m: "key_metrics ?df = Inr m" by blast
  have "run h a s e = (h @ [final_frame ?df], length h, Inr m)"
    using assms m
    by (simp add: run_def new_frame_def Let_def store_col_new rows_setitem
        normalized_nonempty ppp_implied_nonempty column_Nil_iff getitem_setitem final_frame_def
        del: append_assoc)
  with m show ?thesis by blast
qed


section \<open>Division by zero\<close>

lemma nf_fdiv_zero: "\<not> is_fin (fdiv x (Fin 0))"
  by (cases x) (simp_all add: is_fin_def signed_inf_def)

lemma nf_fdiv_left: "\<not> is_fin x \<Longrightarrow> \<not> is_fin (fdiv x y)"
  by (cases x; cases y) (simp_all add: is_fin_def signed_inf_def)

lemma nf_fmul_left: "\<not> is_fin x \<Longrightarrow> \<not> is_fin (fmul x y)"
  by (cases x; cases y) (simp_all add: is_fin_def signed_inf_def inf_times_def)

lemma nf_fmul_right: "\<not> is_fin y \<Longrightarrow> \<not> is_fin (fmul x y)"
  by (cases x; cases y) (simp_all add: is_fin_def signed_inf_def inf_times_def)

lemma normalized_zero_base:
  assumes "df \<noteq> []"
  shows "\<exists>ys. normalized (column c df) = Inr ys \<and> length ys = length df
      \<and> (c (hd df) = 0 \<longrightarrow> (\<forall>i < length df. \<not> is_fin (ys ! i)))"
proof -
  let ?xs = "column c df"
  let ?ys = "scale (map (\<lambda>x. fdiv x (hd ?xs)) ?xs) (Fin 100)"
  have n: "normalized ?xs = Inr ?ys"
    using assms by (simp add: normalized_nonempty column_Nil_iff)
  have l: "length ?ys = length df" by (simp add: scale_def column_def)
  have "\<not> is_fin (?ys ! i)" if "c (hd df) = 0" "i < length df" for i
  proof -
    from that(1) assms have "hd ?xs = Fin 0" by (simp add: hd_column)
    moreover have "?ys ! i = fmul (fdiv (?xs ! i) (hd ?xs)) (Fin 100)"
      using that(2) by (simp add: scale_def column_def)
    ultimately show ?thesis by (simp add: nf_fmul_left nf_fdiv_zero del: fdiv.simps fmul.simps)
  qed
  with n l show ?thesis by blast
qed

lemma ppp_implied_zero:
  assumes "df \<noteq> []"
  shows "\<exists>ps. ppp_implied df = Inr ps \<and> length ps = length df
      \<and> (\<forall>i < length df. US_CPI (df ! i) = 0 \<longrightarrow> \<not> is_fin (ps ! i))
      \<and> (US_CPI (hd df) \<noteq> 0 \<and> India_CPI (hd df) = 0 \<longrightarrow> (\<forall>i < length df. \<not> is_fin (ps ! i)))"
proof -
  let ?d = "fdiv (Fin (India_CPI (hd df))) (Fin (US_CPI (hd df)))"
  let ?ps = "map (\<lambda>r. fdiv (fmul (Fin (Exchange_Rate_INR_USD (hd df))) r) ?d)
              (map (\<lambda>(b, a). fdiv b a) (zip (column India_CPI df) (column US_CPI df)))"
  have n: "ppp_implied df = Inr ?ps" using assms by (rule ppp_implied_nonempty)
  have l: "length ?ps = length df" by (simp add: column_def)
  have a: "\<not> is_fin (?ps ! i)" if "i < length df" "US_CPI (df ! i) = 0" for i
  proof -
    have "?ps ! i = fdiv (fmul (Fin (Exchange_Rate_INR_USD (hd df)))
                    (fdiv (Fin (India_CPI (df ! i))) (Fin (US_CPI (df ! i))))) ?d"
      using that(1) by (simp add: column_def del: fdiv.simps fmul.simps)
    then show ?thesis using that(2)
      by (simp add: nf_fdiv_left nf_fmul_right nf_fdiv_zero del: fdiv.simps fmul.simps)
  qed
  have b: "\<not> is_fin (?ps ! i)" if "i < length df" "US_CPI (hd df) \<noteq> 0" "India_CPI (hd df) = 0" for i
  proof -
    have "?d = Fin 0" using that by simp
    moreover have "?ps ! i = fdiv (fmul (Fin (Exchange_Rate_INR_USD (hd df)))
                    (fdiv (Fin (India_CPI (df ! i))) (Fin (US_CPI (df ! i))))) ?d"
      using that(1) by (simp add: column_def del: fdiv.simps fmul.simps)
    ultimately show ?thesis by (simp add: nf_fdiv_zero del: fdiv.simps fmul.simps)
  qed
  from n l a b show ?thesis by blast
qed

lemma ppp_deviation_zero:
  "i < length fx \<Longrightarrow> i < length ps \<Longrightarrow> ps ! i = Fin 0 \<Longrightarrow> \<not> is_fin (ppp_deviation fx ps ! i)"
  by (simp add: ppp_deviation_def scale_def nf_fmul_left nf_fdiv_zero del: fdiv.simps fmul.simps)

section \<open>Empty date range\<close>

text \<open>
  Claim C2, as amended. When the date filter selects no row, every computation that
  reads the first record fails with \<open>IndexError\<close>, the exception of the out-of-range
  \<open>iloc\<close>: the summary metrics, the normalisation of any column and the implied rate.
  The run itself ends at the summary metrics with that exception; \<open>df_filtered\<close> is then
  the empty copy with no derived column, so no arithmetic error and no table of NaN is
  produced.
\<close>

theorem empty_range_index_error:
  assumes "filter_range (rows (h ! a)) s e = []"
  shows "calculate_metrics (filter_range (rows (h ! a)) s e) = Inl IndexError
    \<and> (\<forall>c. normalized (column c (filter_range (rows (h ! a)) s e)) = Inl IndexError)
    \<and> ppp_implied (filter_range (rows (h ! a)) s e) = Inl IndexError
    \<and> run h a s e = (h @ [\<lparr>rows = [], derived = []\<rparr>], length h, Inl IndexError)"
  using assms run_empty [OF assms]
  by (simp add: calculate_metrics_def column_def iloc_empty normalized_empty ppp_implied_empty)

theorem empty_range_index_error_witness:
  "filter_range (rows ([\<lparr>rows = tbl, derived = []\<rparr>] ! 0)) (2021, 6, 15) (2021, 12, 31) = []
   \<and> run [\<lparr>rows = tbl, derived = []\<rparr>] 0 (2021, 6, 15) (2021, 12, 31) =
       ([\<lparr>rows = tbl, derived = []\<rparr>, \<lparr>rows = [], derived = []\<rparr>], 1, Inl IndexError)"
proof -
  have e: "filter_range (rows ([\<lparr>rows = tbl, derived = []\<rparr>] ! 0)) (2021, 6, 15) (2021, 12, 31) = []"
    by (simp add: filter_range_filter tbl_def dt_date_def)
  from empty_range_index_error [OF e] e show ?thesis by simp
qed

text \<open>
  The exception is not the \<open>EmptyRangeError\<close> of the specification: with a start date
  after the last date of the table the run ends with \<open>IndexError\<close>.
\<close>

theorem empty_range_counterexample:
  "filter_range tbl (2021, 6, 15) (2021, 12, 31) = []
   \<and> key_metrics (filter_range tbl (2021, 6, 15) (2021, 12, 31)) = Inl IndexError
   \<and> key_metrics (filter_range tbl (2021, 6, 15) (2021, 12, 31)) \<noteq> Inl EmptyRangeError
   \<and> snd (snd (run [\<lparr>rows = tbl, derived = []\<rparr>] 0 (2021, 6, 15) (2021, 12, 31))) \<noteq> Inl EmptyRangeError"
proof -
  have e: "filter_range tbl (2021, 6, 15) (2021, 12, 31) = []"
    by (simp add: filter_range_filter tbl_def dt_date_def)
  have r: "run [\<lparr>rows = tbl, derived = []\<rparr>] 0 (2021, 6, 15) (2021, 12, 31) =
       ([\<lparr>rows = tbl, derived = []\<rparr>] @ [\<lparr>rows = [], derived = []\<rparr>], length [\<lparr>rows = tbl, derived = []\<rparr>], Inl IndexError)"
    by (rule run_empty) (simp add: filter_range_filter tbl_def dt_date_def)
  show ?thesis by (simp add: e r key_metrics_empty)
qed

section \<open>Zero divisors\<close>

text \<open>
  Claim C3, as amended. On a non-empty filtered table no computation raises, whatever
  zeros the table holds: the metrics, the normalised columns, the implied rate and the
  whole run return normally. A division by zero shows in the values only: a zero
  normalisation base makes every value of that normalised column NaN or an infinity,
  a zero \<open>US_CPI\<close> at a position makes the implied rate there NaN or an infinity, a
  zero first-row ratio (\<open>India_CPI\<close> zero, \<open>US_CPI\<close> not) does so at every position,
  and a zero implied rate makes the deviation there NaN or an infinity.
\<close>

theorem zero_divisor_is_silent:
  assumes "df \<noteq> []"
  shows "(\<exists>m. key_metrics df = Inr m)
    \<and> (\<forall>c. \<exists>ys. normalized (column c df) = Inr ys \<and> length ys = length df
          \<and> (c (hd df) = 0 \<longrightarrow> (\<forall>i < length df. \<not> is_fin (ys ! i))))
    \<and> (\<exists>ps. ppp_implied df = Inr ps \<and> length ps = length df
          \<and> (\<forall>i < length df. US_CPI (df ! i) = 0 \<longrightarrow> \<not> is_fin (ps ! i))
          \<and> (US_CPI (hd df) \<noteq> 0 \<and> India_CPI (hd df) = 0 \<longrightarrow> (\<forall>i < length df. \<not> is_fin (ps ! i))))
    \<and> (\<forall>fx ps i. i < length fx \<and> i < length ps \<and> ps ! i = Fin 0 \<longrightarrow>
          \<not> is_fin (ppp_deviation fx ps ! i))
    \<and> (\<forall>h a s e. filter_range (rows (h ! a)) s e = df \<longrightarrow>
          (\<exists>h' m. run h a s e = (h', length h, Inr m)))"
proof -
  have r: "\<exists>h' m. run h a s e = (h', length h, Inr m)"
    if "filter_range (rows (h ! a)) s e = df" for h a s e
    using run_nonempty [of h a s e] that assms by auto
  from key_metrics_nonempty [OF assms] normalized_zero_base [OF assms]
       ppp_implied_zero [OF assms] ppp_deviation_zero r
  show ?thesis by blast
qed

theorem zero_divisor_is_silent_witness:
  "tblz \<noteq> [] \<and> US_CPI (hd tblz) = 0
   \<and> (\<exists>ys. normalized (column US_CPI tblz) = Inr ys \<and> \<not> is_fin (ys ! 0) \<and> \<not> is_fin (ys ! 1))
   \<and> (\<exists>ps. ppp_implied tblz = Inr ps \<and> \<not> is_fin (ps ! 0))"
proof -
  have ne: "tblz \<noteq> []" and z: "US_CPI (hd tblz) = 0" and z0: "US_CPI (tblz ! 0) = 0"
    and l: "length tblz = 2"
    by (simp_all add: tblz_def)
  from zero_divisor_is_silent [OF ne] z z0 l ne show ?thesis
    by (metis One_nat_def lessI zero_less_numeral one_less_numeral_iff semiring_norm(76))
qed

text \<open>
  With \<open>US_CPI\<close> zero in the first row nothing raises \<open>DivisionByZeroError\<close>: the
  normalised column is NaN and infinity, the implied rate is NaN and then zero, and the
  US cumulative change is infinite.
\<close>

theorem zero_cpi_counterexample:
  "normalized (column US_CPI tblz) = Inr [NaN, PInf]
   \<and> normalized (column US_CPI tblz) \<noteq> Inl DivisionByZeroError
   \<and> ppp_implied tblz = Inr [NaN, Fin 0]
   \<and> ppp_implied tblz \<noteq> Inl DivisionByZeroError
   \<and> key_metrics tblz =
       Inr \<lparr>us_inf = PInf, india_inf = Fin 5, fx_change = Fin 10, inflation_diff = NInf\<rparr>"
  by (simp add: normalized_def ppp_implied_def key_metrics_def calculate_metrics_def
      iloc_def column_def tblz_def scale_def signed_inf_def inf_times_def)

section \<open>Frame of the raw table\<close>

lemma rows_final_frame: "rows (final_frame df) = df"
  by (simp add: final_frame_def rows_setitem)

lemma derived_final_frame:
  "map fst (derived (final_frame df)) =
     [''US_Inflation_YoY'', ''India_Inflation_YoY'', ''US_CPI_Normalized'',
      ''India_CPI_Normalized'', ''Exchange_Rate_Normalized'', ''PPP_Implied'', ''PPP_Deviation'']"
  by (simp add: final_frame_def setitem_def)

text \<open>
  Claim C10. A run writes only to the copy: the frame of the raw table, and every
  other frame that existed before, is the same after the run as before it (rows and
  columns, hence also the minimal and maximal date); \<open>df_filtered\<close> is a new object at
  another address holding the filtered rows, and after a run without exception it
  carries the seven derived columns.
\<close>

theorem run_leaves_raw_unchanged:
  assumes "a < length h"
  shows "fst (run h a s e) ! a = h ! a
    \<and> take (length h) (fst (run h a s e)) = h
    \<and> length (fst (run h a s e)) = Suc (length h)
    \<and> fst (snd (run h a s e)) = length h
    \<and> fst (snd (run h a s e)) \<noteq> a
    \<and> rows (fst (run h a s e) ! length h) = filter_range (rows (h ! a)) s e
    \<and> (filter_range (rows (h ! a)) s e \<noteq> [] \<longrightarrow>
         map fst (derived (fst (run h a s e) ! length h)) =
           [''US_Inflation_YoY'', ''India_Inflation_YoY'', ''US_CPI_Normalized'',
            ''India_CPI_Normalized'', ''Exchange_Rate_Normalized'', ''PPP_Implied'',
            ''PPP_Deviation''])"
proof (cases "filter_range (rows (h ! a)) s e = []")
  case True
  from run_empty [OF True] assms True show ?thesis
    by (simp add: nth_append)
next
  case False
  from run_nonempty [OF False] obtain m where
    "run h a s e = (h @ [final_frame (filter_range (rows (h ! a)) s e)], length h, Inr m)"
    by blast
  with assms False show ?thesis
    by (simp add: nth_append rows_final_frame derived_final_frame)
qed

theorem run_leaves_raw_unchanged_witness:
  "(0::nat) < length [\<lparr>rows = tbl, derived = []\<rparr>]
   \<and> fst (run [\<lparr>rows = tbl, derived = []\<rparr>] 0 (2020, 1, 15) (2020, 12, 31)) ! 0
       = \<lparr>rows = tbl, derived = []\<rparr>
   \<and> fst (snd (run [\<lparr>rows = tbl, derived = []\<rparr>] 0 (2020, 1, 15) (2020, 12, 31))) = 1
   \<and> rows (fst (run [\<lparr>rows = tbl, derived = []\<rparr>] 0 (2020, 1, 15) (2020, 12, 31)) ! 1) = tbl"
proof -
  have l: "(0::nat) < length [\<lparr>rows = tbl, derived = []\<rparr>]" by simp
  have f: "filter_range tbl (2020, 1, 15) (2020, 12, 31) = tbl"
    by (simp add: filter_range_filter tbl_def dt_date_def)
  from run_leaves_raw_unchanged [OF l, of "(2020, 1, 15)" "(2020, 12, 31)"] f
  show ?thesis by simp
qed

section \<open>Correlation matrix\<close>















end
